theory Spec2Isabelle
  imports Complex_Main "HOL-Library.Word" "HOL-Library.FSet"
begin

unbundle bit_operations_syntax

section \<open>Data model (pkg/api/types.go, pkg/errors/errors.go)\<close>

type_synonym byte = "8 word"

text \<open>
  \<^verbatim>\<open>api.Mesh\<close>. A Go byte slice is a list of bytes; the nil slice and the empty
  slice are both \<open>[]\<close> (the code only takes \<open>len\<close> of them and writes them to the
  hasher). \<^verbatim>\<open>int\<close> and \<^verbatim>\<open>int64\<close> fields are read as integers: no function below
  does arithmetic on them.
\<close>

record Mesh =
  ID :: string
  AnchorID :: string
  Vertices :: "byte list"
  Faces :: "byte list"
  Normals :: "byte list"
  Hash :: string
  IsDelta :: bool
  BaseMeshID :: string
  DeltaData :: "byte list"
  CompressionLevel :: int
  Timestamp :: int

text \<open>\<^verbatim>\<open>errors.APIError\<close> and the constructor \<^verbatim>\<open>errors.ValidationError\<close>.\<close>

record APIError =
  Message :: string
  StatusCode :: nat
  Code :: string

definition ValidationError :: "string \<Rightarrow> APIError" where
  "ValidationError message =
     \<lparr>Message = ''validation error: '' @ message, StatusCode = 400, Code = ''VALIDATION_ERROR''\<rparr>"

section \<open>SHA-256 and hex encoding (Go standard library)\<close>

text \<open>
  \<^verbatim>\<open>crypto/sha256\<close> computes the SHA-256 of FIPS 180-4 on 32-bit words: the message is
  padded with the byte 0x80, zero bytes up to 56 modulo 64 and the bit length as 8
  big-endian bytes, cut into blocks of 16 big-endian words, and each block is run
  through 64 rounds of the compression function.
\<close>

definition rotr :: "nat \<Rightarrow> 32 word \<Rightarrow> 32 word" where
  "rotr n x = drop_bit n x OR push_bit (32 - n) x"

definition Ch :: "32 word \<Rightarrow> 32 word \<Rightarrow> 32 word \<Rightarrow> 32 word" where
  "Ch x y z = (x AND y) XOR (NOT x AND z)"

definition Maj :: "32 word \<Rightarrow> 32 word \<Rightarrow> 32 word \<Rightarrow> 32 word" where
  "Maj x y z = (x AND y) XOR (x AND z) XOR (y AND z)"

definition bsig0 :: "32 word \<Rightarrow> 32 word" where
  "bsig0 x = rotr 2 x XOR rotr 13 x XOR rotr 22 x"

definition bsig1 :: "32 word \<Rightarrow> 32 word" where
  "bsig1 x = rotr 6 x XOR rotr 11 x XOR rotr 25 x"

definition ssig0 :: "32 word \<Rightarrow> 32 word" where
  "ssig0 x = rotr 7 x XOR rotr 18 x XOR drop_bit 3 x"

definition ssig1 :: "32 word \<Rightarrow> 32 word" where
  "ssig1 x = rotr 17 x XOR rotr 19 x XOR drop_bit 10 x"

text \<open>
  The round constants and the initial hash value, in decimal: the first 32 bits of the
  fractional parts of the cube roots of the first 64 primes and of the square roots of
  the first 8.
\<close>

definition sha256_K :: "32 word list" where
  "sha256_K =
    [1116352408, 1899447441, 3049323471, 3921009573, 961987163, 1508970993, 2453635748, 2870763221,
     3624381080, 310598401, 607225278, 1426881987, 1925078388, 2162078206, 2614888103, 3248222580,
     3835390401, 4022224774, 264347078, 604807628, 770255983, 1249150122, 1555081692, 1996064986,
     2554220882, 2821834349, 2952996808, 3210313671, 3336571891, 3584528711, 113926993, 338241895,
     666307205, 773529912, 1294757372, 1396182291, 1695183700, 1986661051, 2177026350, 2456956037,
     2730485921, 2820302411, 3259730800, 3345764771, 3516065817, 3600352804, 4094571909, 275423344,
     430227734, 506948616, 659060556, 883997877, 958139571, 1322822218, 1537002063, 1747873779,
     1955562222, 2024104815, 2227730452, 2361852424, 2428436474, 2756734187, 3204031479, 3329325298]"

definition sha256_H0 :: "32 word list" where
  "sha256_H0 =
    [1779033703, 3144134277, 1013904242, 2773480762, 1359893119, 2600822924, 528734635, 1541459225]"

definition be_bytes64 :: "64 word \<Rightarrow> byte list" where
  "be_bytes64 v = map (\<lambda>i. ucast (drop_bit (8 * (7 - i)) v)) [0..<8]"

definition sha256_pad :: "byte list \<Rightarrow> byte list" where
  "sha256_pad msg =
     msg @ [0x80] @ replicate ((119 - length msg mod 64) mod 64) 0
         @ be_bytes64 (8 * of_nat (length msg))"

fun be_words :: "byte list \<Rightarrow> 32 word list" where
  "be_words (a # b # c # d # rest) =
     (push_bit 24 (ucast a) OR push_bit 16 (ucast b) OR push_bit 8 (ucast c) OR ucast d) # be_words rest"
| "be_words _ = []"

fun schedule :: "nat \<Rightarrow> 32 word list \<Rightarrow> 32 word list" where
  "schedule 0 w = w"
| "schedule (Suc n) w =
     (let t = length w in
      schedule n (w @ [ssig1 (w ! (t - 2)) + w ! (t - 7) + ssig0 (w ! (t - 15)) + w ! (t - 16)]))"

fun round256 :: "32 word list \<Rightarrow> 32 word \<times> 32 word \<Rightarrow> 32 word list" where
  "round256 [a, b, c, d, e, f, g, h] (k, w) =
     (let t1 = h + bsig1 e + Ch e f g + k + w;
          t2 = bsig0 a + Maj a b c
      in [t1 + t2, a, b, c, d + t1, e, f, g])"
| "round256 s _ = s"

definition compress :: "32 word list \<Rightarrow> 32 word list \<Rightarrow> 32 word list" where
  "compress H block =
     map2 (+) H (foldl round256 H (zip sha256_K (schedule 48 block)))"

fun sha256_blocks :: "nat \<Rightarrow> 32 word list \<Rightarrow> 32 word list \<Rightarrow> 32 word list" where
  "sha256_blocks 0 H ws = H"
| "sha256_blocks (Suc n) H ws = sha256_blocks n (compress H (take 16 ws)) (drop 16 ws)"

definition word_bytes :: "32 word \<Rightarrow> byte list" where
  "word_bytes w = [ucast (drop_bit 24 w), ucast (drop_bit 16 w), ucast (drop_bit 8 w), ucast w]"

definition sha256 :: "byte list \<Rightarrow> byte list" where
  "sha256 msg =
     (let ws = be_words (sha256_pad msg)
      in concat (map word_bytes (sha256_blocks (length ws div 16) sha256_H0 ws)))"

text \<open>
  The \<^verbatim>\<open>hash.Hash\<close> returned by \<^verbatim>\<open>sha256.New()\<close>: \<^verbatim>\<open>Write\<close> appends to the data
  hashed so far, \<^verbatim>\<open>Sum(nil)\<close> returns the digest of all of it.
\<close>

type_synonym hasher = "byte list"

definition sha256_New :: hasher where
  "sha256_New = []"

definition Write :: "hasher \<Rightarrow> byte list \<Rightarrow> hasher" where
  "Write h p = h @ p"

definition Sum :: "hasher \<Rightarrow> byte list" where
  "Sum h = sha256 h"

text \<open>\<^verbatim>\<open>hex.EncodeToString\<close>: two lowercase hexadecimal digits per byte, high nibble first.\<close>

definition hextable :: string where
  "hextable = ''0123456789abcdef''"

definition EncodeToString :: "byte list \<Rightarrow> string" where
  "EncodeToString src =
     concat (map (\<lambda>b. [hextable ! unat (drop_bit 4 b), hextable ! unat (b AND 0x0f)]) src)"

section \<open>The spatial repository: mesh hashing and processing (internal/spatial/repository.go)\<close>

text \<open>
  Of \<^verbatim>\<open>Repository\<close> the mesh pipeline reads and writes only \<^verbatim>\<open>meshHashCache\<close>, the
  map from hash to mesh id.
\<close>

record Repository =
  meshHashCache :: "string \<rightharpoonup> string"

definition NewRepository :: Repository where
  "NewRepository = \<lparr>meshHashCache = Map.empty\<rparr>"

definition computeMeshHash :: "Mesh \<Rightarrow> string" where
  "computeMeshHash mesh =
     (let h = sha256_New;
          h = Write h (Vertices mesh);
          h = Write h (Faces mesh);
          h = (if length (Normals mesh) > 0 then Write h (Normals mesh) else h)
      in EncodeToString (Sum h))"

text \<open>
  \<^verbatim>\<open>processMeshForStorage\<close> returns \<^verbatim>\<open>(mesh, savedBytes, err)\<close> and updates the cache of
  its receiver: the model returns \<open>Inl err\<close>, or \<open>Inr\<close> of the mesh, the saved bytes and the
  repository after the call. The mesh is mutated through its pointer and that pointer is
  returned, so the returned record is the mesh after the call.
\<close>

definition processMeshForStorage :: "Repository \<Rightarrow> Mesh \<Rightarrow> APIError + (Mesh \<times> int \<times> Repository)" where
  "processMeshForStorage r mesh =
     (if IsDelta mesh then
        (if BaseMeshID mesh = [] then Inl (ValidationError ''delta mesh missing base_mesh_id'')
         else if length (DeltaData mesh) > 0
           then Inr (mesh\<lparr>Vertices := DeltaData mesh, Faces := [], Normals := []\<rparr>, 0, r)
           else Inr (mesh, 0, r))
      else
        (let hash = computeMeshHash mesh;
             mesh = mesh\<lparr>Hash := hash\<rparr>
         in case meshHashCache r hash of
              Some existingMeshID \<Rightarrow>
                Inr (mesh\<lparr>ID := existingMeshID\<rparr>,
                     int (length (Vertices mesh) + length (Faces mesh) + length (Normals mesh)), r)
            | None \<Rightarrow>
                Inr (mesh, 0, r\<lparr>meshHashCache := (meshHashCache r)(hash \<mapsto> ID mesh)\<rparr>)))"

section \<open>The session hub (internal/server/websocket)\<close>

text \<open>
  A \<^verbatim>\<open>*Client\<close> is known by its pointer; \<^verbatim>\<open>sessionID\<close> is set once by
  \<^verbatim>\<open>NewClient\<close>. The record is the identity of the client: two clients are the same
  exactly when pointer and session agree. The channel \<^verbatim>\<open>client.send\<close> is shared
  mutable state, so the hub's state keeps it in a store from clients to channel states.
\<close>

record Client =
  ptr :: nat
  sessionID :: string

text \<open>
  A buffered Go channel of byte slices: the frames queued and whether \<^verbatim>\<open>close\<close> has
  run. \<^verbatim>\<open>NewClient\<close> makes it with capacity 256.
\<close>

record chan =
  buf :: "byte list list"
  closed :: bool

definition sendCapacity :: nat where
  "sendCapacity = 256"

datatype panic = CloseOfClosedChannel | SendOnClosedChannel

text \<open>\<^verbatim>\<open>close(ch)\<close>: the runtime panics when the channel is closed already.\<close>

definition close :: "chan \<Rightarrow> panic + chan" where
  "close ch = (if closed ch then Inl CloseOfClosedChannel else Inr (ch\<lparr>closed := True\<rparr>))"

record BroadcastMessage =
  bm_SessionID :: string
  bm_Message :: "byte list"
  bm_Exclude :: "Client option"

text \<open>
  \<^verbatim>\<open>Hub\<close>: the session map \<^verbatim>\<open>clients\<close> (a Go \<^verbatim>\<open>map[string]map[*Client]bool\<close>, each inner
  map a finite set), \<^verbatim>\<open>maxClientsPerSession\<close>, the state of every client's \<^verbatim>\<open>send\<close>
  channel, and the gauge \<^verbatim>\<open>metrics.WSConnectionsActive\<close> by its session label.
\<close>

record Hub =
  clients :: "string \<rightharpoonup> Client fset"
  maxClientsPerSession :: nat
  send :: "Client \<Rightarrow> chan"
  WSConnectionsActive :: "string \<Rightarrow> int"

definition NewHub :: Hub where
  "NewHub = \<lparr>clients = Map.empty, maxClientsPerSession = 10,
             send = (\<lambda>_. \<lparr>buf = [], closed = False\<rparr>),
             WSConnectionsActive = (\<lambda>_. 0)\<rparr>"

definition registerClient :: "Hub \<Rightarrow> Client \<Rightarrow> panic + Hub" where
  "registerClient h client =
     (let sid = sessionID client;
          h = (case clients h sid of
                 None \<Rightarrow> h\<lparr>clients := (clients h)(sid \<mapsto> {||})\<rparr>
               | Some _ \<Rightarrow> h);
          cs = (case clients h sid of None \<Rightarrow> {||} | Some cs \<Rightarrow> cs)
      in if fcard cs \<ge> maxClientsPerSession h then
           (case close (send h client) of
              Inl p \<Rightarrow> Inl p
            | Inr ch \<Rightarrow> Inr (h\<lparr>send := (send h)(client := ch)\<rparr>))
         else
           Inr (h\<lparr>clients := (clients h)(sid \<mapsto> finsert client cs),
                  WSConnectionsActive :=
                    (WSConnectionsActive h)(sid := WSConnectionsActive h sid + 1)\<rparr>))"

definition unregisterClient :: "Hub \<Rightarrow> Client \<Rightarrow> panic + Hub" where
  "unregisterClient h client =
     (let sid = sessionID client in
      case clients h sid of
        None \<Rightarrow> Inr h
      | Some cs \<Rightarrow>
          if client |\<in>| cs then
            (let cs' = cs |-| {|client|} in
             case close (send h client) of
               Inl p \<Rightarrow> Inl p
             | Inr ch \<Rightarrow>
                 Inr (h\<lparr>clients := (if fcard cs' = 0 then (clients h)(sid := None)
                                      else (clients h)(sid \<mapsto> cs')),
                        send := (send h)(client := ch),
                        WSConnectionsActive :=
                          (WSConnectionsActive h)(sid := WSConnectionsActive h sid - 1)\<rparr>))
          else Inr h)"

text \<open>
  The loop of \<^verbatim>\<open>broadcastMessage\<close> ranges over the session's client set in an order
  the Go runtime chooses. The model takes the order as a list \<open>visit\<close> and goes
  through the clients of the set as they come in it; every theorem holds for every
  list. Per client: skip the excluded one; otherwise a non-blocking send, which panics
  on a closed channel, queues the message when the buffer has room, and else takes the
  \<^verbatim>\<open>default\<close> branch, which sends the client on the hub's \<^verbatim>\<open>unregister\<close> channel. The
  clients sent there are returned as the second component; serving them is a later
  \<^verbatim>\<open>unregisterClient\<close> request of the run.
\<close>

fun broadcastLoop ::
  "BroadcastMessage \<Rightarrow> Client list \<Rightarrow> (Client \<Rightarrow> chan) \<Rightarrow> Client list
     \<Rightarrow> panic + ((Client \<Rightarrow> chan) \<times> Client list)" where
  "broadcastLoop msg [] chans unreg = Inr (chans, unreg)"
| "broadcastLoop msg (client # rest) chans unreg =
     (if Some client = bm_Exclude msg then broadcastLoop msg rest chans unreg
      else if closed (chans client) then Inl SendOnClosedChannel
      else if length (buf (chans client)) < sendCapacity then
        broadcastLoop msg rest
          (chans(client := (chans client)\<lparr>buf := buf (chans client) @ [bm_Message msg]\<rparr>)) unreg
      else broadcastLoop msg rest chans (unreg @ [client]))"

definition broadcastMessage ::
  "Hub \<Rightarrow> BroadcastMessage \<Rightarrow> Client list \<Rightarrow> panic + (Hub \<times> Client list)" where
  "broadcastMessage h msg visit =
     (case clients h (bm_SessionID msg) of
        None \<Rightarrow> Inr (h, [])
      | Some cs \<Rightarrow>
          (case broadcastLoop msg (filter (\<lambda>c. c |\<in>| cs) visit) (send h) [] of
             Inl p \<Rightarrow> Inl p
           | Inr (chans, unreg) \<Rightarrow> Inr (h\<lparr>send := chans\<rparr>, unreg)))"

text \<open>
  The event loop \<^verbatim>\<open>Run\<close> takes one request at a time from the three channels. A run of
  the hub is the list of requests it served, in any order and number: the unregister
  requests that \<^verbatim>\<open>ReadPump\<close> and the broadcast loop send are among them. A panic ends the
  run.
\<close>

datatype event =
  Register Client
| Unregister Client
| Broadcast BroadcastMessage "Client list"

fun step :: "Hub \<Rightarrow> event \<Rightarrow> panic + Hub" where
  "step h (Register c) = registerClient h c"
| "step h (Unregister c) = unregisterClient h c"
| "step h (Broadcast msg visit) =
     (case broadcastMessage h msg visit of Inl p \<Rightarrow> Inl p | Inr (h', unreg) \<Rightarrow> Inr h')"

fun run :: "Hub \<Rightarrow> event list \<Rightarrow> panic + Hub" where
  "run h [] = Inr h"
| "run h (e # es) = (case step h e of Inl p \<Rightarrow> Inl p | Inr h' \<Rightarrow> run h' es)"

fun registered :: "event list \<Rightarrow> Client list" where
  "registered [] = []"
| "registered (Register c # es) = c # registered es"
| "registered (_ # es) = registered es"

text \<open>
  \<^verbatim>\<open>handleDataUpdate\<close> of client \<open>c\<close>. The repository's verdict on the message
  (\<open>err\<close>) and the two \<^verbatim>\<open>json.Marshal\<close> results (\<open>data\<close> for the message, \<open>errFrame\<close> for
  the error frame of \<^verbatim>\<open>sendError\<close>) are inputs. On an error the client gets the error
  frame by a non-blocking send on its own queue and nothing is broadcast; on success
  the message is put on the hub's \<^verbatim>\<open>broadcast\<close> channel, returned here.
\<close>

definition sendError :: "Hub \<Rightarrow> Client \<Rightarrow> byte list \<Rightarrow> panic + Hub" where
  "sendError h c errFrame =
     (if closed (send h c) then Inl SendOnClosedChannel
      else if length (buf (send h c)) < sendCapacity then
        Inr (h\<lparr>send := (send h)(c := (send h c)\<lparr>buf := buf (send h c) @ [errFrame]\<rparr>)\<rparr>)
      else Inr h)"

definition handleDataUpdate ::
  "Hub \<Rightarrow> Client \<Rightarrow> APIError option \<Rightarrow> byte list \<Rightarrow> byte list
     \<Rightarrow> panic + (Hub \<times> BroadcastMessage option)" where
  "handleDataUpdate h c err data errFrame =
     (case err of
        Some e \<Rightarrow>
          (case sendError h c errFrame of Inl p \<Rightarrow> Inl p | Inr h' \<Rightarrow> Inr (h', None))
      | None \<Rightarrow>
          Inr (h, Some \<lparr>bm_SessionID = sessionID c, bm_Message = data, bm_Exclude = Some c\<rparr>))"

section \<open>The query planner and the single-anchor handler\<close>

text \<open>
  \<^verbatim>\<open>api.Pose\<close>, \<^verbatim>\<open>api.Anchor\<close>, \<^verbatim>\<open>api.QueryParams\<close> and \<^verbatim>\<open>api.QueryResponse\<close>. A
  \<^verbatim>\<open>float64\<close> is read as a real number: the planner only compares the radius with 0
  and multiplies it by 1000, and no theorem below depends on rounding. Metadata is a
  list of keys with their raw JSON values.
\<close>

record Pose =
  X :: real
  Y :: real
  Z :: real
  Rotation :: "real list"

record Anchor =
  a_ID :: string
  a_SessionID :: string
  a_Pose :: Pose
  a_Timestamp :: int
  a_Metadata :: "(string \<times> string) list"

record QueryParams =
  p_SessionID :: string
  p_AnchorID :: string
  p_Radius :: real
  p_Since :: int
  p_Until :: int
  p_Limit :: int
  p_IncludeMeshes :: bool
  p_IncludeDeleted :: bool

record QueryResponse =
  Anchors :: "Anchor list"
  Meshes :: "Mesh list"
  Count :: nat
  HasMore :: bool

text \<open>The values of the bindings map (\<^verbatim>\<open>map[string]interface{}\<close>) that the planner stores.\<close>

datatype bindval = BString string | BInt int | BFloat real

definition AnchorsCollection :: string where
  "AnchorsCollection = ''anchors''"

definition DatabaseError :: "string \<Rightarrow> APIError" where
  "DatabaseError message =
     \<lparr>Message = ''database error: '' @ message, StatusCode = 500, Code = ''DATABASE_ERROR''\<rparr>"

text \<open>\<^verbatim>\<open>fmt.Sprintf("%d", n)\<close>: the decimal digits of an integer, with a minus sign when negative.\<close>

definition digitChar :: "nat \<Rightarrow> char" where
  "digitChar d = ''0123456789'' ! d"

function decimal :: "nat \<Rightarrow> string" where
  "decimal n = (if n < 10 then [digitChar n] else decimal (n div 10) @ [digitChar (n mod 10)])"
  by pat_completeness auto
termination
  by (relation "measure id") auto

declare decimal.simps [simp del]

definition Sprintf_d :: "int \<Rightarrow> string" where
  "Sprintf_d i = (if i < 0 then ''-'' @ decimal (nat (- i)) else decimal (nat i))"

text \<open>
  The raw string literal of the spatial filter, with its line breaks and tabs as they
  stand in the source.
\<close>

definition tabs :: "nat \<Rightarrow> string" where
  "tabs n = replicate n (CHR 0x09)"

definition spatialCondition :: string where
  "spatialCondition =
     ''\<newline>'' @
     tabs 3 @ ''LET refAnchor = FIRST(\<newline>'' @
     tabs 4 @ ''FOR a IN @@collection\<newline>'' @
     tabs 4 @ ''FILTER a.id == @anchor_id\<newline>'' @
     tabs 4 @ ''RETURN a\<newline>'' @
     tabs 3 @ '')\<newline>'' @
     tabs 3 @ ''FILTER refAnchor != null\<newline>'' @
     tabs 3 @ ''FILTER GEO_DISTANCE([refAnchor.pose.x, refAnchor.pose.y], [doc.pose.x, doc.pose.y]) <= @radius\<newline>'' @
     tabs 2"

definition buildQuery :: "QueryParams \<Rightarrow> string \<times> (string \<rightharpoonup> bindval)" where
  "buildQuery params =
     (let conditions = [];
          bindVars = [''@collection'' \<mapsto> BString AnchorsCollection];
          (conditions, bindVars) =
            (if p_SessionID params \<noteq> [] then
               (conditions @ [''doc.session_id == @session_id''],
                bindVars(''session_id'' \<mapsto> BString (p_SessionID params)))
             else (conditions, bindVars));
          (conditions, bindVars) =
            (if p_Since params > 0 then
               (conditions @ [''doc.timestamp >= @since''],
                bindVars(''since'' \<mapsto> BInt (p_Since params)))
             else (conditions, bindVars));
          (conditions, bindVars) =
            (if p_Until params > 0 then
               (conditions @ [''doc.timestamp <= @until''],
                bindVars(''until'' \<mapsto> BInt (p_Until params)))
             else (conditions, bindVars));
          (conditions, bindVars) =
            (if p_AnchorID params \<noteq> [] \<and> p_Radius params > 0 then
               (conditions @ [spatialCondition],
                bindVars(''anchor_id'' \<mapsto> BString (p_AnchorID params),
                         ''radius'' \<mapsto> BFloat (p_Radius params * 1000)))
             else (conditions, bindVars));
          query = ''FOR doc IN @@collection'';
          query =
            (case conditions of
               [] \<Rightarrow> query
             | c # cs \<Rightarrow>
                 foldl (\<lambda>q cond. q @ ''\<newline>AND '' @ cond) (query @ ''\<newline>FILTER '' @ c) cs);
          query = query @ ''\<newline>SORT doc.timestamp DESC'';
          (query, bindVars) =
            (if p_Limit params > 0 then
               (query @ ''\<newline>LIMIT '' @ Sprintf_d (p_Limit params),
                bindVars(''limit'' \<mapsto> BInt (p_Limit params)))
             else (query @ ''\<newline>LIMIT 100'', bindVars));
          query = query @ ''\<newline>RETURN doc''
      in (query, bindVars))"

text \<open>
  The document store is an external collaborator. What \<^verbatim>\<open>Query\<close> sees of it is the
  outcome of running a query text with its bindings and reading the cursor to the end
  (the query fails, a read fails, or the documents come back), and the outcome of
  \<^verbatim>\<open>loadMeshesForAnchors\<close>, which is a second store query. Both are fields of the
  connection, so every theorem holds for every store.
\<close>

datatype dbresult = ExecError string | ReadError string | Documents "Anchor list"

record Connection =
  runQuery :: "string \<Rightarrow> (string \<rightharpoonup> bindval) \<Rightarrow> dbresult"
  loadMeshesForAnchors :: "Anchor list \<Rightarrow> APIError + Mesh list"

definition Query :: "Connection \<Rightarrow> QueryParams \<Rightarrow> APIError + QueryResponse" where
  "Query db params =
     (let (query, bindVars) = buildQuery params in
      case runQuery db query bindVars of
        ExecError err \<Rightarrow> Inl (DatabaseError (''failed to execute query: '' @ err))
      | ReadError err \<Rightarrow> Inl (DatabaseError (''failed to read anchor: '' @ err))
      | Documents anchors \<Rightarrow>
          (let response = \<lparr>Anchors = anchors, Meshes = [], Count = length anchors,
                            HasMore = (int (length anchors) \<ge> p_Limit params)\<rparr>
           in if p_IncludeMeshes params \<and> length anchors > 0 then
                (case loadMeshesForAnchors db anchors of
                   Inl err \<Rightarrow> Inl err
                 | Inr meshes \<Rightarrow> Inr (response\<lparr>Meshes := meshes\<rparr>))
              else Inr response))"

text \<open>
  The HTTP answer \<^verbatim>\<open>c.JSON(status, body)\<close>: the body is an anchor or the object with
  \<^verbatim>\<open>error\<close> and, for an API error, \<^verbatim>\<open>code\<close>. Every error \<^verbatim>\<open>Query\<close> returns is an
  \<^verbatim>\<open>*APIError\<close>, so the handler's branch for other errors is never taken.
\<close>

datatype body = AnchorJSON Anchor | ErrorJSON string "string option"

datatype response = Response nat body

definition GetAnchor :: "Connection \<Rightarrow> string \<Rightarrow> response" where
  "GetAnchor db anchorID =
     (if anchorID = [] then Response 400 (ErrorJSON ''anchor ID is required'' None)
      else
        (let params = \<lparr>p_SessionID = [], p_AnchorID = anchorID, p_Radius = 0, p_Since = 0,
                        p_Until = 0, p_Limit = 1, p_IncludeMeshes = False,
                        p_IncludeDeleted = False\<rparr>
         in case Query db params of
              Inl apiErr \<Rightarrow>
                Response (StatusCode apiErr) (ErrorJSON (Message apiErr) (Some (Code apiErr)))
            | Inr response \<Rightarrow>
                (case Anchors response of
                   [] \<Rightarrow> Response 404 (ErrorJSON ''Anchor not found'' None)
                 | a # _ \<Rightarrow> Response 200 (AnchorJSON a))))"

section \<open>Concrete inputs\<close>

text \<open>The two identical meshes of \<^verbatim>\<open>TestMeshDeduplication\<close> (\<^verbatim>\<open>repository_test.go\<close>).\<close>

definition test_mesh1 :: Mesh where
  "test_mesh1 =
     \<lparr>ID = ''mesh1'', AnchorID = ''anchor1'', Vertices = [1, 2, 3, 4, 5, 6], Faces = [0, 1, 2],
      Normals = [], Hash = [], IsDelta = False, BaseMeshID = [], DeltaData = [],
      CompressionLevel = 0, Timestamp = 1700000000000\<rparr>"

definition test_mesh2 :: Mesh where
  "test_mesh2 = test_mesh1\<lparr>ID := ''mesh2''\<rparr>"

text \<open>The delta mesh of \<^verbatim>\<open>TestDeltaMeshValidation\<close>, first without and then with its base.\<close>

definition test_delta :: Mesh where
  "test_delta =
     \<lparr>ID = ''delta1'', AnchorID = ''anchor1'', Vertices = [], Faces = [], Normals = [],
      Hash = [], IsDelta = True, BaseMeshID = [], DeltaData = [1, 2, 3],
      CompressionLevel = 0, Timestamp = 1700000000000\<rparr>"

definition test_delta_based :: Mesh where
  "test_delta_based = test_delta\<lparr>BaseMeshID := ''base1''\<rparr>"

text \<open>
  A delta mesh as an ingest body can carry it: a base, geometry in \<^verbatim>\<open>vertices\<close>,
  \<^verbatim>\<open>faces\<close> and \<^verbatim>\<open>normals\<close>, and no \<^verbatim>\<open>delta_data\<close>.
\<close>

definition delta_without_payload :: Mesh where
  "delta_without_payload =
     \<lparr>ID = ''delta2'', AnchorID = ''anchor1'', Vertices = [7, 8, 9], Faces = [0, 1, 2],
      Normals = [5], Hash = [], IsDelta = True, BaseMeshID = ''mesh1'', DeltaData = [],
      CompressionLevel = 0, Timestamp = 1700000000000\<rparr>"

text \<open>Two full meshes that split the same three bytes differently.\<close>

definition split_mesh_a :: Mesh where
  "split_mesh_a =
     \<lparr>ID = ''m-A'', AnchorID = ''anchor1'', Vertices = [1], Faces = [2, 3], Normals = [],
      Hash = [], IsDelta = False, BaseMeshID = [], DeltaData = [],
      CompressionLevel = 0, Timestamp = 1700000000000\<rparr>"

definition split_mesh_b :: Mesh where
  "split_mesh_b = split_mesh_a\<lparr>ID := ''m-B'', Vertices := [1, 2], Faces := [3]\<rparr>"

text \<open>Eleven clients of the session \<open>cap\<close>: the first ten and the one that comes too late.\<close>

definition cap_client :: "nat \<Rightarrow> Client" where
  "cap_client i = \<lparr>ptr = i, sessionID = ''cap''\<rparr>"

definition ten_clients :: "Client list" where
  "ten_clients = map cap_client [0, 1, 2, 3, 4, 5, 6, 7, 8, 9]"

text \<open>
  A store that holds the single anchor \<open>a1\<close>: asked for the newest document of the
  anchors collection it answers with \<open>a1\<close>, and any other query finds nothing.
\<close>

definition anchor_a1 :: Anchor where
  "anchor_a1 =
     \<lparr>a_ID = ''a1'', a_SessionID = ''s1'',
      a_Pose = \<lparr>X = 1, Y = 2, Z = 3, Rotation = [0, 0, 0, 1]\<rparr>,
      a_Timestamp = 1700000000000, a_Metadata = []\<rparr>"

definition newest_anchor_query :: string where
  "newest_anchor_query =
     ''FOR doc IN @@collection\<newline>SORT doc.timestamp DESC\<newline>LIMIT 1\<newline>RETURN doc''"

definition store_with_a1 :: Connection where
  "store_with_a1 =
     \<lparr>runQuery = (\<lambda>query bindVars.
         if query = newest_anchor_query then Documents [anchor_a1] else Documents []),
      loadMeshesForAnchors = (\<lambda>anchors. Inr [])\<rparr>"

text \<open>
  The parameters of \<^verbatim>\<open>GET /api/v1/query?session_id=s1&limit=5\<close>, as the query handler
  passes them to the planner.
\<close>

definition params_s1_limit5 :: QueryParams where
  "params_s1_limit5 =
     \<lparr>p_SessionID = ''s1'', p_AnchorID = [], p_Radius = 0, p_Since = 0, p_Until = 0,
      p_Limit = 5, p_IncludeMeshes = False, p_IncludeDeleted = False\<rparr>"

text \<open>The hub after the first ten have registered, and the eleventh client.\<close>

definition full_session :: Hub where
  "full_session =
     \<lparr>clients = [''cap'' \<mapsto> fset_of_list ten_clients], maxClientsPerSession = 10,
      send = (\<lambda>_. \<lparr>buf = [], closed = False\<rparr>),
      WSConnectionsActive = (\<lambda>_. 0)(''cap'' := 10)\<rparr>"

definition late_client :: Client where
  "late_client = cap_client 10"

text \<open>
  Two clients of the session \<open>s2\<close>, the hub after both have registered, and the bytes
  of a message that the first of them sends.
\<close>

definition client_A :: Client where
  "client_A = \<lparr>ptr = 1, sessionID = ''s2''\<rparr>"

definition client_B :: Client where
  "client_B = \<lparr>ptr = 2, sessionID = ''s2''\<rparr>"

definition session_s2 :: Hub where
  "session_s2 =
     \<lparr>clients = [''s2'' \<mapsto> {|client_A, client_B|}], maxClientsPerSession = 10,
      send = (\<lambda>_. \<lparr>buf = [], closed = False\<rparr>),
      WSConnectionsActive = (\<lambda>_. 0)(''s2'' := 2)\<rparr>"

definition update_bytes :: "byte list" where
  "update_bytes = [123, 125]"

section \<open>Invariants of the hub\<close>

text \<open>
  \<open>within_cap\<close>: the cap is 10 and no session set is larger.
  \<open>hub_inv R\<close>, for the set \<open>R\<close> of clients registered so far: a client in a session
  set is filed under its own session, its queue is open and it has been registered; a
  closed queue belongs to a client that has been registered.
\<close>

definition within_cap :: "Hub \<Rightarrow> bool" where
  "within_cap h \<longleftrightarrow>
     maxClientsPerSession h = 10 \<and> (\<forall>sid cs. clients h sid = Some cs \<longrightarrow> fcard cs \<le> 10)"

definition hub_inv :: "Client set \<Rightarrow> Hub \<Rightarrow> bool" where
  "hub_inv R h \<longleftrightarrow>
     (\<forall>sid cs c. clients h sid = Some cs \<and> c |\<in>| cs
        \<longrightarrow> sessionID c = sid \<and> \<not> closed (send h c) \<and> c \<in> R) \<and>
     (\<forall>c. closed (send h c) \<longrightarrow> c \<in> R)"

text \<open>
  \<open>seen R\<close>: the clients in the session sets and the clients with a closed queue
  are among \<open>R\<close>. It holds along every run for the clients registered so far.
\<close>

definition seen :: "Client set \<Rightarrow> Hub \<Rightarrow> bool" where
  "seen R h \<longleftrightarrow>
     (\<forall>sid cs c. clients h sid = Some cs \<and> c |\<in>| cs \<longrightarrow> c \<in> R) \<and>
     (\<forall>c. closed (send h c) \<longrightarrow> c \<in> R)"

section \<open>Properties of the mesh hasher and processor\<close>

text \<open>
  The digest has 32 bytes and its hex encoding 64 lowercase digits; writing the three
  slices one after the other hashes their concatenation.
\<close>

lemma length_EncodeToString: "length (EncodeToString bs) = 2 * length bs"
  by (induction bs) (simp_all add: EncodeToString_def)

lemma length_round256: "length (round256 s kw) = length s"
  by (cases "(s, kw)" rule: round256.cases) (simp_all add: Let_def)

lemma length_foldl_round256: "length (foldl round256 H xs) = length H"
  by (induction xs arbitrary: H) (simp_all add: length_round256)

lemma length_compress: "length (compress H b) = length H"
  by (simp add: compress_def length_foldl_round256)

lemma length_sha256_blocks: "length (sha256_blocks n H ws) = length H"
  by (induction n arbitrary: H ws) (simp_all add: length_compress)

lemma length_concat_word_bytes: "length (concat (map word_bytes xs)) = 4 * length xs"
  by (induction xs) (simp_all add: word_bytes_def)

lemma length_sha256: "length (sha256 msg) = 32"
  by (simp add: sha256_def Let_def length_concat_word_bytes length_sha256_blocks sha256_H0_def)

lemma length_computeMeshHash: "length (computeMeshHash mesh) = 64"
  by (simp add: computeMeshHash_def Let_def Sum_def length_EncodeToString length_sha256)

lemma computeMeshHash_concat:
  "computeMeshHash mesh = EncodeToString (sha256 (Vertices mesh @ Faces mesh @ Normals mesh))"
  by (simp add: computeMeshHash_def Let_def Sum_def Write_def sha256_New_def)

lemma hextable_nth: "k < 16 \<Longrightarrow> hextable ! k \<in> set ''0123456789abcdef''"
proof -
  assume "k < 16"
  then have "k < length hextable" by (simp add: hextable_def)
  then have "hextable ! k \<in> set hextable" by (rule nth_mem)
  then show ?thesis by (simp only: hextable_def)
qed

lemma high_nibble: "unat (drop_bit 4 (b :: byte)) < 16"
proof -
  have "unat b < 2 ^ 8" using unsigned_less [of b] by simp
  then show ?thesis by (simp add: drop_bit_eq_div unat_div)
qed

lemma low_nibble: "unat ((b :: byte) AND 0x0f) < 16"
proof -
  have "unat (b AND 15) \<le> unat (15 :: byte)"
    by (rule word_and_le1 [THEN word_le_nat_alt [THEN iffD1]])
  then show ?thesis by simp
qed

lemma EncodeToString_lowercase: "set (EncodeToString bs) \<subseteq> set ''0123456789abcdef''"
  unfolding EncodeToString_def using hextable_nth [OF high_nibble] hextable_nth [OF low_nibble]
  by (induction bs) auto

lemma sha256_nine_bytes:
  "EncodeToString (sha256 [1, 2, 3, 4, 5, 6, 0, 1, 2]) =
     ''ff06acabc8eff733920050af247e22c2330b80d5eba1bff4c0c737c346cc3526''"
  by code_simp

text \<open>
  Claim C5. \<^verbatim>\<open>computeMeshHash\<close> returns the lowercase hex encoding of the SHA-256 of
  vertices, faces and normals written one after the other, the normals only when there
  are any: 64 characters out of \<open>0123456789abcdef\<close>. It depends on the three byte
  sequences only, so equal sequences give equal hashes. For vertices 1..6, faces 0,1,2
  and no normals it is the hex digest of the nine bytes 01 02 03 04 05 06 00 01 02.
\<close>

theorem computeMeshHash_sha256_hex:
  "computeMeshHash mesh =
     EncodeToString (sha256 (Vertices mesh @ Faces mesh @
                             (if Normals mesh \<noteq> [] then Normals mesh else []))) \<and>
   length (computeMeshHash mesh) = 64 \<and>
   set (computeMeshHash mesh) \<subseteq> set ''0123456789abcdef'' \<and>
   (Vertices m1 = Vertices m2 \<and> Faces m1 = Faces m2 \<and> Normals m1 = Normals m2
      \<longrightarrow> computeMeshHash m1 = computeMeshHash m2) \<and>
   (Vertices mesh = [1, 2, 3, 4, 5, 6] \<and> Faces mesh = [0, 1, 2] \<and> Normals mesh = []
      \<longrightarrow> computeMeshHash mesh = EncodeToString (sha256 [1, 2, 3, 4, 5, 6, 0, 1, 2]) \<and>
          computeMeshHash mesh =
            ''ff06acabc8eff733920050af247e22c2330b80d5eba1bff4c0c737c346cc3526'')"
proof -
  have c: "\<And>m. computeMeshHash m = EncodeToString (sha256 (Vertices m @ Faces m @ Normals m))"
    by (rule computeMeshHash_concat)
  have 1: "computeMeshHash mesh =
     EncodeToString (sha256 (Vertices mesh @ Faces mesh @
                             (if Normals mesh \<noteq> [] then Normals mesh else [])))"
    by (simp add: c)
  have 2: "set (computeMeshHash mesh) \<subseteq> set ''0123456789abcdef''"
    unfolding c by (rule EncodeToString_lowercase)
  have 3: "Vertices m1 = Vertices m2 \<and> Faces m1 = Faces m2 \<and> Normals m1 = Normals m2
      \<longrightarrow> computeMeshHash m1 = computeMeshHash m2"
    by (simp add: c)
  have 4: "Vertices mesh = [1, 2, 3, 4, 5, 6] \<and> Faces mesh = [0, 1, 2] \<and> Normals mesh = []
      \<longrightarrow> computeMeshHash mesh = EncodeToString (sha256 [1, 2, 3, 4, 5, 6, 0, 1, 2]) \<and>
          computeMeshHash mesh =
            ''ff06acabc8eff733920050af247e22c2330b80d5eba1bff4c0c737c346cc3526''"
  proof
    assume a: "Vertices mesh = [1, 2, 3, 4, 5, 6] \<and> Faces mesh = [0, 1, 2] \<and> Normals mesh = []"
    then have "Vertices mesh @ Faces mesh @ Normals mesh = [1, 2, 3, 4, 5, 6, 0, 1, 2]"
      by simp
    then have "computeMeshHash mesh = EncodeToString (sha256 [1, 2, 3, 4, 5, 6, 0, 1, 2])"
      by (simp only: c)
    then show "computeMeshHash mesh = EncodeToString (sha256 [1, 2, 3, 4, 5, 6, 0, 1, 2]) \<and>
          computeMeshHash mesh =
            ''ff06acabc8eff733920050af247e22c2330b80d5eba1bff4c0c737c346cc3526''"
      by (simp only: sha256_nine_bytes)
  qed
  from 1 length_computeMeshHash 2 3 4 show ?thesis by blast
qed

text \<open>
  The two meshes of the deduplication test have different ids, equal geometry and the
  same hash, the digest of the nine bytes.
\<close>

theorem computeMeshHash_sha256_hex_witness:
  "computeMeshHash test_mesh1 = computeMeshHash test_mesh2 \<and>
   computeMeshHash test_mesh1 =
     ''ff06acabc8eff733920050af247e22c2330b80d5eba1bff4c0c737c346cc3526'' \<and>
   ID test_mesh1 \<noteq> ID test_mesh2"
proof -
  have a: "Vertices test_mesh1 = Vertices test_mesh2 \<and> Faces test_mesh1 = Faces test_mesh2 \<and>
           Normals test_mesh1 = Normals test_mesh2"
    and b: "Vertices test_mesh1 = [1, 2, 3, 4, 5, 6] \<and> Faces test_mesh1 = [0, 1, 2] \<and>
            Normals test_mesh1 = []"
    and i: "ID test_mesh1 \<noteq> ID test_mesh2"
    by (simp_all add: test_mesh1_def test_mesh2_def)
  from computeMeshHash_sha256_hex [of test_mesh1 test_mesh1 test_mesh2] a b i
  show ?thesis by blast
qed

text \<open>
  Claim C2, as stated, fails for a delta mesh that has a base and no \<^verbatim>\<open>delta_data\<close>:
  the guard \<^verbatim>\<open>len(mesh.DeltaData) > 0\<close> is false, and the mesh comes back with its
  vertices, faces and normals as they were.
\<close>

theorem processMeshForStorage_delta_empty_payload:
  "IsDelta delta_without_payload \<and> BaseMeshID delta_without_payload \<noteq> [] \<and>
   processMeshForStorage NewRepository delta_without_payload =
     Inr (delta_without_payload, 0, NewRepository) \<and>
   Vertices delta_without_payload \<noteq> DeltaData delta_without_payload \<and>
   Faces delta_without_payload \<noteq> [] \<and> Normals delta_without_payload \<noteq> []"
  by (simp add: processMeshForStorage_def delta_without_payload_def)

text \<open>
  Claim C2, amended. For every delta mesh with a non-empty \<^verbatim>\<open>base_mesh_id\<close>,
  \<^verbatim>\<open>processMeshForStorage\<close> succeeds with 0 saved bytes and leaves the cache alone. When
  \<^verbatim>\<open>delta_data\<close> is non-empty the returned mesh has it as its vertices and has empty
  faces and normals; when \<^verbatim>\<open>delta_data\<close> is empty the mesh is returned as it came.
\<close>

theorem processMeshForStorage_delta:
  assumes "IsDelta mesh" and "BaseMeshID mesh \<noteq> []"
  shows "processMeshForStorage r mesh =
           Inr (if DeltaData mesh \<noteq> []
                then mesh\<lparr>Vertices := DeltaData mesh, Faces := [], Normals := []\<rparr>
                else mesh, 0, r)"
  using assms by (simp add: processMeshForStorage_def)

text \<open>
  The valid delta mesh of the validation test: its three bytes of \<^verbatim>\<open>delta_data\<close> end up
  in \<^verbatim>\<open>vertices\<close>.
\<close>

theorem processMeshForStorage_delta_witness:
  "IsDelta test_delta_based \<and> BaseMeshID test_delta_based \<noteq> [] \<and>
   processMeshForStorage NewRepository test_delta_based =
     Inr (test_delta_based\<lparr>Vertices := [1, 2, 3], Faces := [], Normals := []\<rparr>, 0, NewRepository)"
proof -
  have d: "IsDelta test_delta_based" and b: "BaseMeshID test_delta_based \<noteq> []"
    by (simp_all add: test_delta_based_def test_delta_def)
  show ?thesis
    using d b processMeshForStorage_delta [OF d b, of NewRepository]
    by (simp add: test_delta_based_def test_delta_def)
qed

text \<open>
  Claim C4. Let \<open>m1\<close> and \<open>m2\<close> be full meshes with equal vertices, faces and normals,
  processed in that order by one repository, \<open>m1\<close> being a cache miss: the cache has no
  entry for the hash when it arrives. Then their hashes are equal. The hash is computed
  and attached first (\<^verbatim>\<open>mesh.Hash = hash\<close>); on the miss \<open>m1\<close> then comes back unchanged,
  with its own id and every other field as it came, 0 bytes saved, and the cache maps
  the hash to the id of \<open>m1\<close>. On the hit \<open>m2\<close> comes back with its id rewritten to the
  id of \<open>m1\<close>, the saved bytes are the lengths of its vertices, faces and normals added
  up, and the cache stays as it was.
\<close>

theorem processMeshForStorage_dedup:
  assumes "\<not> IsDelta m1" and "\<not> IsDelta m2"
    and "Vertices m1 = Vertices m2" and "Faces m1 = Faces m2" and "Normals m1 = Normals m2"
    and "meshHashCache r (computeMeshHash m1) = None"
  shows "computeMeshHash m1 = computeMeshHash m2 \<and>
         processMeshForStorage r m1 =
           Inr (m1\<lparr>Hash := computeMeshHash m1\<rparr>, 0,
                r\<lparr>meshHashCache := (meshHashCache r)(computeMeshHash m1 \<mapsto> ID m1)\<rparr>) \<and>
         processMeshForStorage
             (r\<lparr>meshHashCache := (meshHashCache r)(computeMeshHash m1 \<mapsto> ID m1)\<rparr>) m2 =
           Inr (m2\<lparr>Hash := computeMeshHash m2, ID := ID m1\<rparr>,
                int (length (Vertices m2) + length (Faces m2) + length (Normals m2)),
                r\<lparr>meshHashCache := (meshHashCache r)(computeMeshHash m1 \<mapsto> ID m1)\<rparr>)"
proof -
  have h: "computeMeshHash m1 = computeMeshHash m2"
    using assms(3-5) by (simp add: computeMeshHash_concat)
  show ?thesis
    using assms(1,2,6) h by (simp add: processMeshForStorage_def Let_def)
qed

text \<open>
  The two meshes of the deduplication test on a new repository: the second one leaves
  with the id of the first and 9 bytes saved.
\<close>

theorem processMeshForStorage_dedup_witness:
  "computeMeshHash test_mesh1 = computeMeshHash test_mesh2 \<and>
   processMeshForStorage NewRepository test_mesh1 =
     Inr (test_mesh1\<lparr>Hash := computeMeshHash test_mesh1\<rparr>, 0,
          \<lparr>meshHashCache = [computeMeshHash test_mesh1 \<mapsto> ''mesh1'']\<rparr>) \<and>
   processMeshForStorage \<lparr>meshHashCache = [computeMeshHash test_mesh1 \<mapsto> ''mesh1'']\<rparr> test_mesh2 =
     Inr (test_mesh2\<lparr>Hash := computeMeshHash test_mesh2, ID := ''mesh1''\<rparr>, 9,
          \<lparr>meshHashCache = [computeMeshHash test_mesh1 \<mapsto> ''mesh1'']\<rparr>)"
proof -
  have a: "\<not> IsDelta test_mesh1" "\<not> IsDelta test_mesh2"
    "Vertices test_mesh1 = Vertices test_mesh2" "Faces test_mesh1 = Faces test_mesh2"
    "Normals test_mesh1 = Normals test_mesh2"
    "meshHashCache NewRepository (computeMeshHash test_mesh1) = None"
    by (simp_all add: test_mesh1_def test_mesh2_def NewRepository_def)
  have v: "ID test_mesh1 = ''mesh1''"
    "int (length (Vertices test_mesh2) + length (Faces test_mesh2) + length (Normals test_mesh2)) = 9"
    by (simp_all add: test_mesh1_def test_mesh2_def)
  show ?thesis
    using processMeshForStorage_dedup [OF a] v by (clarsimp simp: NewRepository_def)
qed

text \<open>
  Claim C6, as stated, fails in the message: \<^verbatim>\<open>errors.ValidationError\<close> puts the prefix
  \<open>validation error: \<close> before the text it is given, so the error's message is not
  the bare text.
\<close>

theorem processMeshForStorage_error_message:
  "IsDelta test_delta \<and> BaseMeshID test_delta = [] \<and>
   processMeshForStorage NewRepository test_delta =
     Inl \<lparr>Message = ''validation error: delta mesh missing base_mesh_id'', StatusCode = 400,
          Code = ''VALIDATION_ERROR''\<rparr> \<and>
   ''validation error: delta mesh missing base_mesh_id'' \<noteq> ''delta mesh missing base_mesh_id''"
  by (simp add: processMeshForStorage_def ValidationError_def test_delta_def)

text \<open>
  Claim C6, amended. \<^verbatim>\<open>processMeshForStorage\<close> returns an error exactly when the mesh is
  a delta with an empty \<^verbatim>\<open>base_mesh_id\<close>. The error is then the one
  \<^verbatim>\<open>errors.ValidationError\<close> builds from \<open>delta mesh missing base_mesh_id\<close>: code
  \<open>VALIDATION_ERROR\<close>, status 400 and the message with the prefix
  \<open>validation error: \<close>. Every other mesh gives a mesh and no error.
\<close>

theorem processMeshForStorage_error_iff:
  "((\<exists>e. processMeshForStorage r mesh = Inl e) = (IsDelta mesh \<and> BaseMeshID mesh = [])) \<and>
   (IsDelta mesh \<and> BaseMeshID mesh = [] \<longrightarrow>
      processMeshForStorage r mesh =
        Inl \<lparr>Message = ''validation error: delta mesh missing base_mesh_id'', StatusCode = 400,
             Code = ''VALIDATION_ERROR''\<rparr>) \<and>
   (\<not> (IsDelta mesh \<and> BaseMeshID mesh = []) \<longrightarrow>
      (\<exists>m saved r'. processMeshForStorage r mesh = Inr (m, saved, r')))"
  by (auto simp: processMeshForStorage_def ValidationError_def Let_def split: option.splits)

text \<open>
  The delta mesh of the validation test is rejected without its base and accepted with
  it, and a full mesh is accepted.
\<close>

theorem processMeshForStorage_error_iff_witness:
  "processMeshForStorage NewRepository test_delta =
     Inl \<lparr>Message = ''validation error: delta mesh missing base_mesh_id'', StatusCode = 400,
          Code = ''VALIDATION_ERROR''\<rparr> \<and>
   (\<exists>m saved r'. processMeshForStorage NewRepository test_delta_based = Inr (m, saved, r')) \<and>
   (\<exists>m saved r'. processMeshForStorage NewRepository test_mesh1 = Inr (m, saved, r'))"
proof -
  have a: "IsDelta test_delta \<and> BaseMeshID test_delta = []"
    and b: "\<not> (IsDelta test_delta_based \<and> BaseMeshID test_delta_based = [])"
    and c: "\<not> (IsDelta test_mesh1 \<and> BaseMeshID test_mesh1 = [])"
    by (simp_all add: test_delta_def test_delta_based_def test_mesh1_def)
  from processMeshForStorage_error_iff [of NewRepository test_delta] a
       processMeshForStorage_error_iff [of NewRepository test_delta_based] b
       processMeshForStorage_error_iff [of NewRepository test_mesh1] c
  show ?thesis by blast
qed

text \<open>
  Claim C10. The full meshes with vertices 1 and faces 2,3, and with vertices 1,2 and
  faces 3, differ in both fields and have the same hash, as any two meshes do whose
  three slices concatenate to the same bytes. Processed one after the other by a new
  repository, the second is taken for a duplicate of the first: it comes back with the
  id of the first and 3 bytes saved.
\<close>

theorem split_meshes_collide:
  "\<not> IsDelta split_mesh_a \<and> \<not> IsDelta split_mesh_b \<and>
   Vertices split_mesh_a \<noteq> Vertices split_mesh_b \<and> Faces split_mesh_a \<noteq> Faces split_mesh_b \<and>
   Normals split_mesh_a = Normals split_mesh_b \<and> ID split_mesh_a \<noteq> ID split_mesh_b \<and>
   computeMeshHash split_mesh_a = computeMeshHash split_mesh_b \<and>
   processMeshForStorage NewRepository split_mesh_a =
     Inr (split_mesh_a\<lparr>Hash := computeMeshHash split_mesh_a\<rparr>, 0,
          \<lparr>meshHashCache = [computeMeshHash split_mesh_a \<mapsto> ''m-A'']\<rparr>) \<and>
   processMeshForStorage \<lparr>meshHashCache = [computeMeshHash split_mesh_a \<mapsto> ''m-A'']\<rparr> split_mesh_b =
     Inr (split_mesh_b\<lparr>Hash := computeMeshHash split_mesh_b, ID := ''m-A''\<rparr>, 3,
          \<lparr>meshHashCache = [computeMeshHash split_mesh_a \<mapsto> ''m-A'']\<rparr>) \<and>
   (Vertices m1 @ Faces m1 @ Normals m1 = Vertices m2 @ Faces m2 @ Normals m2
      \<longrightarrow> computeMeshHash m1 = computeMeshHash m2)"
proof -
  have h: "computeMeshHash split_mesh_a = computeMeshHash split_mesh_b"
    by (simp add: computeMeshHash_concat split_mesh_a_def split_mesh_b_def)
  have f: "\<not> IsDelta split_mesh_a" "\<not> IsDelta split_mesh_b"
    "Vertices split_mesh_a \<noteq> Vertices split_mesh_b" "Faces split_mesh_a \<noteq> Faces split_mesh_b"
    "Normals split_mesh_a = Normals split_mesh_b" "ID split_mesh_a \<noteq> ID split_mesh_b"
    "ID split_mesh_a = ''m-A''"
    "int (length (Vertices split_mesh_b) + length (Faces split_mesh_b) + length (Normals split_mesh_b)) = 3"
    by (simp_all add: split_mesh_a_def split_mesh_b_def)
  have p1: "processMeshForStorage NewRepository split_mesh_a =
     Inr (split_mesh_a\<lparr>Hash := computeMeshHash split_mesh_a\<rparr>, 0,
          \<lparr>meshHashCache = [computeMeshHash split_mesh_a \<mapsto> ''m-A'']\<rparr>)"
    using f(1,7) by (simp add: processMeshForStorage_def NewRepository_def Let_def)
  have p2: "processMeshForStorage \<lparr>meshHashCache = [computeMeshHash split_mesh_a \<mapsto> ''m-A'']\<rparr> split_mesh_b =
     Inr (split_mesh_b\<lparr>Hash := computeMeshHash split_mesh_b, ID := ''m-A''\<rparr>, 3,
          \<lparr>meshHashCache = [computeMeshHash split_mesh_a \<mapsto> ''m-A'']\<rparr>)"
    using f(2,8) h by (simp add: processMeshForStorage_def Let_def)
  have g: "Vertices m1 @ Faces m1 @ Normals m1 = Vertices m2 @ Faces m2 @ Normals m2
      \<longrightarrow> computeMeshHash m1 = computeMeshHash m2"
    by (simp add: computeMeshHash_concat)
  from f(1-6) h p1 p2 g show ?thesis by blast
qed

text \<open>
  Both meshes concatenate to the bytes 1, 2, 3.
\<close>

theorem split_meshes_collide_witness:
  "Vertices split_mesh_a @ Faces split_mesh_a @ Normals split_mesh_a = [1, 2, 3] \<and>
   Vertices split_mesh_b @ Faces split_mesh_b @ Normals split_mesh_b = [1, 2, 3] \<and>
   computeMeshHash split_mesh_a = computeMeshHash split_mesh_b"
proof -
  have a: "Vertices split_mesh_a @ Faces split_mesh_a @ Normals split_mesh_a = [1, 2, 3]"
    and b: "Vertices split_mesh_b @ Faces split_mesh_b @ Normals split_mesh_b = [1, 2, 3]"
    by (simp_all add: split_mesh_a_def split_mesh_b_def)
  from split_meshes_collide [of split_mesh_a split_mesh_b] a b show ?thesis by simp
qed

section \<open>Properties of the session hub\<close>

text \<open>
  Closing a channel, the cap on session sets, and the invariant that ties membership in a
  session set to an open queue. Each is shown for one step and then along a run.
\<close>

lemma close_Inr: "close ch = Inr ch' \<Longrightarrow> \<not> closed ch \<and> ch' = ch\<lparr>closed := True\<rparr>"
  by (auto simp: close_def split: if_splits)

lemma close_open: "\<not> closed ch \<Longrightarrow> close ch = Inr (ch\<lparr>closed := True\<rparr>)"
  by (simp add: close_def)

lemma within_cap_NewHub: "within_cap NewHub"
  by (simp add: within_cap_def NewHub_def)

lemma registerClient_within_cap:
  assumes "within_cap h" and "registerClient h c = Inr h'"
  shows "within_cap h'"
proof (cases "clients h (sessionID c)")
  case None
  with assms show ?thesis
    by (auto simp: within_cap_def registerClient_def Let_def fcard_fempty fcard_finsert_if
             split: if_splits sum.splits)
next
  case (Some cs)
  have "fcard (finsert c cs) \<le> Suc (fcard cs)"
    by (simp add: fcard_finsert_if)
  with Some assms show ?thesis
    by (auto simp: within_cap_def registerClient_def Let_def split: if_splits sum.splits)
qed

lemma unregisterClient_within_cap:
  assumes "within_cap h" and "unregisterClient h c = Inr h'"
  shows "within_cap h'"
proof (cases "clients h (sessionID c)")
  case None
  with assms show ?thesis by (simp add: unregisterClient_def)
next
  case (Some cs)
  have "fcard cs \<le> 10" using assms(1) Some by (simp add: within_cap_def)
  then have "fcard cs - Suc 0 \<le> 10" by simp
  then show ?thesis using Some assms
    by (auto simp: within_cap_def unregisterClient_def Let_def split: if_splits sum.splits)
qed

lemma broadcastMessage_frame:
  "broadcastMessage h msg visit = Inr (h', unreg) \<Longrightarrow>
     clients h' = clients h \<and> maxClientsPerSession h' = maxClientsPerSession h \<and>
     WSConnectionsActive h' = WSConnectionsActive h"
  by (auto simp: broadcastMessage_def split: option.splits sum.splits)

lemma step_within_cap: "within_cap h \<Longrightarrow> step h e = Inr h' \<Longrightarrow> within_cap h'"
proof (cases e)
  case (Register c)
  assume "within_cap h" "step h e = Inr h'"
  with Register show ?thesis by (simp add: registerClient_within_cap)
next
  case (Unregister c)
  assume "within_cap h" "step h e = Inr h'"
  with Unregister show ?thesis by (simp add: unregisterClient_within_cap)
next
  case (Broadcast msg visit)
  assume a: "within_cap h" "step h e = Inr h'"
  with Broadcast obtain unreg where "broadcastMessage h msg visit = Inr (h', unreg)"
    by (auto split: sum.splits)
  from broadcastMessage_frame [OF this] a(1) show ?thesis
    by (simp add: within_cap_def)
qed

lemma run_within_cap: "within_cap h \<Longrightarrow> run h evs = Inr h' \<Longrightarrow> within_cap h'"
proof (induction evs arbitrary: h)
  case Nil
  then show ?case by simp
next
  case (Cons e evs)
  then show ?case
    by (auto split: sum.splits dest: step_within_cap)
qed

lemma registerClient_full:
  assumes "clients h (sessionID c) = Some cs" and "maxClientsPerSession h \<le> fcard cs"
    and "\<not> closed (send h c)"
  shows "registerClient h c = Inr (h\<lparr>send := (send h)(c := (send h c)\<lparr>closed := True\<rparr>)\<rparr>)"
  using assms by (simp add: registerClient_def Let_def close_open)

lemma hub_inv_NewHub: "hub_inv {} NewHub"
  by (simp add: hub_inv_def NewHub_def)


lemma broadcastLoop_closed:
  "broadcastLoop msg visit chans unreg = Inr (chans', unreg')
     \<Longrightarrow> closed (chans' c) = closed (chans c)"
proof (induction visit arbitrary: chans unreg)
  case Nil
  then show ?case by simp
next
  case (Cons x visit)
  then show ?case
    by (auto split: if_splits)
qed

lemma broadcastLoop_panic:
  "broadcastLoop msg visit chans unreg = Inl p \<Longrightarrow> p = SendOnClosedChannel"
proof (induction visit arbitrary: chans unreg)
  case Nil
  then show ?case by simp
next
  case (Cons x visit)
  then show ?case
    by (auto split: if_splits)
qed

lemma broadcastMessage_closed:
  "broadcastMessage h msg visit = Inr (h', unreg) \<Longrightarrow> closed (send h' c) = closed (send h c)"
  by (auto simp: broadcastMessage_def broadcastLoop_closed split: option.splits sum.splits)

lemma registerClient_inv:
  assumes inv: "hub_inv R h" and fresh: "c \<notin> R"
  shows "registerClient h c \<noteq> Inl CloseOfClosedChannel"
    and "registerClient h c = Inr h' \<Longrightarrow> hub_inv (insert c R) h'"
proof -
  have op: "\<not> closed (send h c)"
    using inv fresh unfolding hub_inv_def by blast
  show "registerClient h c \<noteq> Inl CloseOfClosedChannel"
    using op by (simp add: registerClient_def Let_def close_open split: option.splits)
  assume r: "registerClient h c = Inr h'"
  have nm: "\<And>sid cs. clients h sid = Some cs \<Longrightarrow> c |\<notin>| cs"
    using inv fresh unfolding hub_inv_def by blast
  show "hub_inv (insert c R) h'"
  proof (cases "clients h (sessionID c)")
    case None
    with r op inv show ?thesis
      unfolding hub_inv_def
      by (auto simp: registerClient_def Let_def close_open split: if_splits)
  next
    case (Some cs)
    with r op inv nm show ?thesis
      unfolding hub_inv_def
      by (auto simp: registerClient_def Let_def close_open split: if_splits)
  qed
qed

lemma unregisterClient_inv:
  assumes inv: "hub_inv R h"
  shows "unregisterClient h c \<noteq> Inl CloseOfClosedChannel"
    and "unregisterClient h c = Inr h' \<Longrightarrow> hub_inv R h'"
proof -
  have op: "\<And>cs. clients h (sessionID c) = Some cs \<Longrightarrow> c |\<in>| cs \<Longrightarrow> \<not> closed (send h c)"
    using inv unfolding hub_inv_def by blast
  show "unregisterClient h c \<noteq> Inl CloseOfClosedChannel"
    using op by (auto simp: unregisterClient_def Let_def close_open split: option.splits)
  assume u: "unregisterClient h c = Inr h'"
  show "hub_inv R h'"
  proof (cases "clients h (sessionID c)")
    case None
    with u inv show ?thesis by (simp add: unregisterClient_def)
  next
    case (Some cs)
    show ?thesis
    proof (cases "c |\<in>| cs")
      case False
      with Some u inv show ?thesis by (simp add: unregisterClient_def)
    next
      case True
      have cR: "c \<in> R" using inv Some True unfolding hub_inv_def by blast
      have s': "send h' = (send h)(c := (send h c)\<lparr>closed := True\<rparr>)"
        using u Some True op [OF Some True]
        by (auto simp: unregisterClient_def Let_def close_open split: if_splits)
      have cl: "\<And>sid cs'. clients h' sid = Some cs' \<Longrightarrow>
                  (sid = sessionID c \<and> cs' = cs |-| {|c|}) \<or>
                  (sid \<noteq> sessionID c \<and> clients h sid = Some cs')"
        using u Some True op [OF Some True]
        by (auto simp: unregisterClient_def Let_def close_open split: if_splits)
      have mem: "\<And>sid cs' x. clients h' sid = Some cs' \<Longrightarrow> x |\<in>| cs'
                   \<Longrightarrow> x \<noteq> c \<and> (\<exists>cs0. clients h sid = Some cs0 \<and> x |\<in>| cs0)"
      proof -
        fix sid cs' x
        assume a: "clients h' sid = Some cs'" "x |\<in>| cs'"
        from cl [OF a(1)] show "x \<noteq> c \<and> (\<exists>cs0. clients h sid = Some cs0 \<and> x |\<in>| cs0)"
        proof
          assume "sid = sessionID c \<and> cs' = cs |-| {|c|}"
          with a(2) Some show ?thesis by auto
        next
          assume b: "sid \<noteq> sessionID c \<and> clients h sid = Some cs'"
          have "x \<noteq> c"
          proof
            assume "x = c"
            with a(2) b inv have "sessionID c = sid" unfolding hub_inv_def by blast
            with b show False by simp
          qed
          with b a(2) show ?thesis by blast
        qed
      qed
      show ?thesis
        unfolding hub_inv_def
      proof (intro conjI allI impI)
        fix sid cs' x
        assume a: "clients h' sid = Some cs' \<and> x |\<in>| cs'"
        from mem [of sid cs' x] a obtain cs0 where
          m: "x \<noteq> c" "clients h sid = Some cs0" "x |\<in>| cs0" by blast
        from inv m(2,3) have i: "sessionID x = sid" "\<not> closed (send h x)" "x \<in> R"
          unfolding hub_inv_def by blast+
        show "sessionID x = sid" by (rule i(1))
        show "\<not> closed (send h' x)" using i(2) m(1) by (simp add: s')
        show "x \<in> R" by (rule i(3))
      next
        fix x
        assume "closed (send h' x)"
        then show "x \<in> R"
          using inv cR unfolding hub_inv_def by (cases "x = c") (auto simp: s')
      qed
    qed
  qed
qed

lemma broadcast_inv:
  assumes inv: "hub_inv R h" and b: "broadcastMessage h msg visit = Inr (h', unreg)"
  shows "hub_inv R h'"
  using inv broadcastMessage_frame [OF b] broadcastMessage_closed [OF b]
  unfolding hub_inv_def by simp

lemma run_no_double_close:
  "hub_inv R h \<Longrightarrow> distinct (registered evs) \<Longrightarrow> set (registered evs) \<inter> R = {}
     \<Longrightarrow> run h evs \<noteq> Inl CloseOfClosedChannel"
proof (induction evs arbitrary: h R)
  case Nil
  then show ?case by simp
next
  case (Cons e evs)
  show ?case
  proof (cases e)
    case (Register c)
    with Cons.prems have fresh: "c \<notin> R" and d: "distinct (registered evs)"
      and n: "set (registered evs) \<inter> insert c R = {}"
      by auto
    show ?thesis
    proof (cases "registerClient h c")
      case (Inl p)
      with registerClient_inv(1) [OF Cons.prems(1) fresh] Register show ?thesis by auto
    next
      case (Inr h')
      from Cons.IH [OF registerClient_inv(2) [OF Cons.prems(1) fresh Inr] d n] Inr Register
      show ?thesis by simp
    qed
  next
    case (Unregister c)
    with Cons.prems have d: "distinct (registered evs)" and n: "set (registered evs) \<inter> R = {}"
      by auto
    show ?thesis
    proof (cases "unregisterClient h c")
      case (Inl p)
      with unregisterClient_inv(1) [OF Cons.prems(1)] Unregister show ?thesis by auto
    next
      case (Inr h')
      from Cons.IH [OF unregisterClient_inv(2) [OF Cons.prems(1) Inr] d n] Inr Unregister
      show ?thesis by simp
    qed
  next
    case (Broadcast msg visit)
    with Cons.prems have d: "distinct (registered evs)" and n: "set (registered evs) \<inter> R = {}"
      by auto
    show ?thesis
    proof (cases "broadcastMessage h msg visit")
      case (Inl p)
      then have "p = SendOnClosedChannel"
        by (auto simp: broadcastMessage_def split: option.splits sum.splits
                 dest: broadcastLoop_panic)
      with Inl Broadcast show ?thesis by simp
    next
      case (Inr r)
      obtain h' unreg where r: "r = (h', unreg)" by (cases r)
      from Cons.IH [OF broadcast_inv [OF Cons.prems(1) Inr [unfolded r]] d n] Inr r Broadcast
      show ?thesis by simp
    qed
  qed
qed

lemma cap_client_eq [simp]: "cap_client i = cap_client j \<longleftrightarrow> i = j"
  by (simp add: cap_client_def)

lemma sessionID_cap_client [simp]: "sessionID (cap_client i) = ''cap''"
  by (simp add: cap_client_def)


lemma run_ten_clients: "run NewHub (map Register ten_clients) = Inr full_session"
  by (simp add: ten_clients_def NewHub_def full_session_def registerClient_def Let_def
                fcard_finsert_if fcard_fempty finsert_commute)

lemma fcard_ten_clients: "fcard (fset_of_list ten_clients) = 10"
  by (simp add: ten_clients_def fcard_finsert_if fcard_fempty)

lemma registerClient_closed_only:
  assumes "registerClient h c' = Inr h'" and "\<not> closed (send h c)" and "closed (send h' c)"
  shows "c' = c \<and> (\<exists>cs. clients h (sessionID c) = Some cs \<and> maxClientsPerSession h \<le> fcard cs)
         \<or> maxClientsPerSession h = 0"
  using assms
  by (cases "c' = c")
     (auto simp: registerClient_def Let_def fcard_fempty dest!: close_Inr
           split: option.splits if_splits sum.splits)

lemma unregisterClient_closed_only:
  assumes "unregisterClient h c' = Inr h'" and "\<not> closed (send h c)" and "closed (send h' c)"
  shows "c' = c \<and> (\<exists>cs. clients h (sessionID c) = Some cs \<and> c |\<in>| cs)"
  using assms
  by (cases "c' = c")
     (auto simp: unregisterClient_def Let_def dest!: close_Inr
           split: option.splits if_splits sum.splits)

lemma step_closed_mono: "step h e = Inr h' \<Longrightarrow> closed (send h c) \<Longrightarrow> closed (send h' c)"
proof (cases e)
  case (Register c')
  assume "step h e = Inr h'" "closed (send h c)"
  with Register show ?thesis
    by (auto simp: registerClient_def Let_def dest!: close_Inr
             split: option.splits if_splits sum.splits)
next
  case (Unregister c')
  assume "step h e = Inr h'" "closed (send h c)"
  with Unregister show ?thesis
    by (auto simp: unregisterClient_def Let_def dest!: close_Inr
             split: option.splits if_splits sum.splits)
next
  case (Broadcast msg visit)
  assume a: "step h e = Inr h'" "closed (send h c)"
  with Broadcast obtain unreg where "broadcastMessage h msg visit = Inr (h', unreg)"
    by (auto split: sum.splits)
  from broadcastMessage_closed [OF this] a(2) show ?thesis by simp
qed

lemma seen_NewHub: "seen {} NewHub"
  by (simp add: seen_def NewHub_def)

lemma registerClient_members:
  "registerClient h c' = Inr h' \<Longrightarrow> clients h' sid = Some cs' \<Longrightarrow> c |\<in>| cs'
     \<Longrightarrow> c = c' \<or> (\<exists>cs. clients h sid = Some cs \<and> c |\<in>| cs)"
  by (auto simp: registerClient_def Let_def split: option.splits if_splits sum.splits)

lemma unregisterClient_members:
  "unregisterClient h c' = Inr h' \<Longrightarrow> clients h' sid = Some cs' \<Longrightarrow> c |\<in>| cs'
     \<Longrightarrow> \<exists>cs. clients h sid = Some cs \<and> c |\<in>| cs"
  by (auto simp: unregisterClient_def Let_def split: option.splits if_splits sum.splits)

lemma registerClient_closed_cases:
  "registerClient h c' = Inr h' \<Longrightarrow> closed (send h' c) \<Longrightarrow> c = c' \<or> closed (send h c)"
  by (auto simp: registerClient_def Let_def dest!: close_Inr
           split: option.splits if_splits sum.splits)

lemma step_seen:
  assumes "seen R h" and "step h e = Inr h'"
  shows "seen (R \<union> set (registered [e])) h'"
proof (cases e)
  case (Register c')
  with assms(2) have r: "registerClient h c' = Inr h'" by simp
  show ?thesis
    unfolding seen_def
  proof (intro conjI allI impI)
    fix sid cs c
    assume "clients h' sid = Some cs \<and> c |\<in>| cs"
    with registerClient_members [OF r, of sid cs c] assms(1) Register
    show "c \<in> R \<union> set (registered [e])" unfolding seen_def by auto
  next
    fix c
    assume "closed (send h' c)"
    with registerClient_closed_cases [OF r, of c] assms(1) Register
    show "c \<in> R \<union> set (registered [e])" unfolding seen_def by auto
  qed
next
  case (Unregister c')
  with assms(2) have u: "unregisterClient h c' = Inr h'" by simp
  show ?thesis
    unfolding seen_def
  proof (intro conjI allI impI)
    fix sid cs c
    assume "clients h' sid = Some cs \<and> c |\<in>| cs"
    with unregisterClient_members [OF u, of sid cs c] assms(1)
    show "c \<in> R \<union> set (registered [e])" unfolding seen_def by blast
  next
    fix c
    assume c: "closed (send h' c)"
    show "c \<in> R \<union> set (registered [e])"
    proof (cases "closed (send h c)")
      case True
      with assms(1) show ?thesis unfolding seen_def by blast
    next
      case False
      from unregisterClient_closed_only [OF u False c] assms(1)
      show ?thesis unfolding seen_def by blast
    qed
  qed
next
  case (Broadcast msg visit)
  with assms(2) obtain unreg where b: "broadcastMessage h msg visit = Inr (h', unreg)"
    by (auto split: sum.splits)
  from assms(1) broadcastMessage_frame [OF b] broadcastMessage_closed [OF b]
  show ?thesis unfolding seen_def by simp
qed

lemma registered_Cons: "set (registered (e # es)) = set (registered [e]) \<union> set (registered es)"
  by (cases e) simp_all

lemma run_seen: "seen R h \<Longrightarrow> run h evs = Inr h' \<Longrightarrow> seen (R \<union> set (registered evs)) h'"
proof (induction evs arbitrary: h R)
  case Nil
  then show ?case by simp
next
  case (Cons e evs)
  from Cons.prems(2) obtain h1 where s: "step h e = Inr h1" and r: "run h1 evs = Inr h'"
    by (auto split: sum.splits)
  from Cons.IH [OF step_seen [OF Cons.prems(1) s] r]
  show ?case by (simp only: registered_Cons [of e evs] Un_assoc)
qed

lemma new_client_open:
  "run NewHub evs = Inr h \<Longrightarrow> c \<notin> set (registered evs) \<Longrightarrow> \<not> closed (send h c)"
  using run_seen [OF seen_NewHub, of evs h] unfolding seen_def by auto

text \<open>
  Claim C7. In every state the hub reaches from \<^verbatim>\<open>NewHub\<close> by register, unregister and
  broadcast requests, no session set has more than 10 clients. When a register request
  comes in such a state for a client whose session already holds 10 clients and whose
  queue is open, the request closes that queue and changes nothing else: the session map
  and the gauge \<^verbatim>\<open>WSConnectionsActive\<close> stay as they were. The queue is open for every
  client that has not been registered before, which is how \<^verbatim>\<open>HandleWebSocket\<close> registers
  the clients \<^verbatim>\<open>NewClient\<close> makes.
\<close>

theorem session_cap:
  "(run NewHub evs = Inr h \<longrightarrow> (\<forall>sid cs. clients h sid = Some cs \<longrightarrow> fcard cs \<le> 10)) \<and>
   (run NewHub evs = Inr h \<and> clients h (sessionID c) = Some cs \<and> fcard cs = 10 \<and>
    \<not> closed (send h c) \<longrightarrow>
      registerClient h c = Inr (h\<lparr>send := (send h)(c := (send h c)\<lparr>closed := True\<rparr>)\<rparr>)) \<and>
   (run NewHub evs = Inr h \<and> c \<notin> set (registered evs) \<longrightarrow> \<not> closed (send h c))"
proof (intro conjI impI)
  assume "run NewHub evs = Inr h"
  from run_within_cap [OF within_cap_NewHub this]
  show "\<forall>sid cs. clients h sid = Some cs \<longrightarrow> fcard cs \<le> 10"
    by (simp add: within_cap_def)
next
  assume a: "run NewHub evs = Inr h \<and> clients h (sessionID c) = Some cs \<and> fcard cs = 10 \<and>
    \<not> closed (send h c)"
  then have "maxClientsPerSession h = 10"
    using run_within_cap [OF within_cap_NewHub, of evs h] by (simp add: within_cap_def)
  with a show "registerClient h c = Inr (h\<lparr>send := (send h)(c := (send h c)\<lparr>closed := True\<rparr>)\<rparr>)"
    by (simp add: registerClient_full)
next
  assume "run NewHub evs = Inr h \<and> c \<notin> set (registered evs)"
  then show "\<not> closed (send h c)" using new_client_open by blast
qed

text \<open>
  Ten clients register for the session \<open>cap\<close>; the gauge reads 10. The eleventh is
  turned away with its queue closed.
\<close>

theorem session_cap_witness:
  "run NewHub (map Register ten_clients) = Inr full_session \<and>
   late_client \<notin> set (registered (map Register ten_clients)) \<and>
   \<not> closed (send full_session late_client) \<and>
   clients full_session (sessionID late_client) = Some (fset_of_list ten_clients) \<and>
   fcard (fset_of_list ten_clients) = 10 \<and>
   WSConnectionsActive full_session ''cap'' = 10 \<and>
   registerClient full_session late_client =
     Inr (full_session\<lparr>send := (send full_session)(late_client := \<lparr>buf = [], closed = True\<rparr>)\<rparr>)"
proof -
  have a: "clients full_session (sessionID late_client) = Some (fset_of_list ten_clients)"
    and n: "late_client \<notin> set (registered (map Register ten_clients))"
    and g: "WSConnectionsActive full_session ''cap'' = 10"
    and s: "(send full_session late_client)\<lparr>closed := True\<rparr> = \<lparr>buf = [], closed = True\<rparr>"
    by (simp_all add: full_session_def late_client_def ten_clients_def)
  from session_cap [of "map Register ten_clients" full_session late_client "fset_of_list ten_clients"]
       run_ten_clients n
  have b: "\<not> closed (send full_session late_client)" by blast
  from session_cap [of "map Register ten_clients" full_session late_client "fset_of_list ten_clients"]
       run_ten_clients a b fcard_ten_clients
  have r: "registerClient full_session late_client =
     Inr (full_session\<lparr>send := (send full_session)(late_client := (send full_session late_client)\<lparr>closed := True\<rparr>)\<rparr>)"
    by blast
  from run_ten_clients n b a fcard_ten_clients g r s show ?thesis by simp
qed

text \<open>
  Claim C8, as stated, fails: the register path closes a queue too. After ten clients
  have registered for \<open>cap\<close>, the register request of the eleventh closes its queue,
  which was open, and no unregister request has been served.
\<close>

theorem registerClient_closes_late_client:
  "run NewHub (map Register ten_clients) = Inr full_session \<and>
   \<not> closed (send full_session late_client) \<and>
   step full_session (Register late_client) =
     Inr (full_session\<lparr>send := (send full_session)(late_client := \<lparr>buf = [], closed = True\<rparr>)\<rparr>) \<and>
   closed (send (full_session\<lparr>send := (send full_session)(late_client := \<lparr>buf = [], closed = True\<rparr>)\<rparr>)
             late_client)"
proof -
  have a: "clients full_session (sessionID late_client) = Some (fset_of_list ten_clients)"
    and b: "\<not> closed (send full_session late_client)"
    and m: "maxClientsPerSession full_session \<le> fcard (fset_of_list ten_clients)"
    and s: "(send full_session late_client)\<lparr>closed := True\<rparr> = \<lparr>buf = [], closed = True\<rparr>"
    by (simp_all add: full_session_def late_client_def fcard_ten_clients)
  from registerClient_full [OF a m b] run_ten_clients b s show ?thesis by simp
qed

text \<open>
  Claim C8, amended. Along every run of the hub in which no client is registered twice,
  no request closes a queue that is closed already, so each queue is closed at most once.
  In a state the hub reaches, a request that closes the queue of a client \<open>c\<close> is
  either the unregister request of \<open>c\<close>, with \<open>c\<close> in its session set, or the register
  request of \<open>c\<close> when its session holds 10 clients; a broadcast closes no queue. A
  closed queue stays closed.
\<close>

theorem send_queue_closes:
  "(distinct (registered evs) \<longrightarrow> run NewHub evs \<noteq> Inl CloseOfClosedChannel) \<and>
   (run NewHub evs = Inr h \<and> step h e = Inr h' \<and> \<not> closed (send h c) \<and> closed (send h' c) \<longrightarrow>
      (e = Unregister c \<and> (\<exists>cs. clients h (sessionID c) = Some cs \<and> c |\<in>| cs)) \<or>
      (e = Register c \<and> (\<exists>cs. clients h (sessionID c) = Some cs \<and> fcard cs = 10))) \<and>
   (step h e = Inr h' \<and> closed (send h c) \<longrightarrow> closed (send h' c))"
proof (intro conjI impI)
  assume "distinct (registered evs)"
  from run_no_double_close [OF hub_inv_NewHub this]
  show "run NewHub evs \<noteq> Inl CloseOfClosedChannel" by simp
next
  assume a: "run NewHub evs = Inr h \<and> step h e = Inr h' \<and> \<not> closed (send h c) \<and> closed (send h' c)"
  then have w: "within_cap h" using run_within_cap [OF within_cap_NewHub] by blast
  show "(e = Unregister c \<and> (\<exists>cs. clients h (sessionID c) = Some cs \<and> c |\<in>| cs)) \<or>
      (e = Register c \<and> (\<exists>cs. clients h (sessionID c) = Some cs \<and> fcard cs = 10))"
  proof (cases e)
    case (Register c')
    with a have "registerClient h c' = Inr h'" by simp
    from registerClient_closed_only [OF this] a w
    have "c' = c \<and> (\<exists>cs. clients h (sessionID c) = Some cs \<and> 10 \<le> fcard cs)"
      by (auto simp: within_cap_def)
    then obtain cs where c: "c' = c" "clients h (sessionID c) = Some cs" "10 \<le> fcard cs"
      by blast
    moreover from w c(2) have "fcard cs \<le> 10" by (simp add: within_cap_def)
    ultimately have "fcard cs = 10" by simp
    with c Register show ?thesis by blast
  next
    case (Unregister c')
    with a have "unregisterClient h c' = Inr h'" by simp
    from unregisterClient_closed_only [OF this] a Unregister show ?thesis by blast
  next
    case (Broadcast msg visit)
    with a obtain unreg where "broadcastMessage h msg visit = Inr (h', unreg)"
      by (auto split: sum.splits)
    from broadcastMessage_closed [OF this, of c] a show ?thesis by simp
  qed
next
  assume "step h e = Inr h' \<and> closed (send h c)"
  then show "closed (send h' c)" using step_closed_mono by blast
qed

text \<open>
  Eleven clients register for \<open>cap\<close>; the eleventh, turned away, is unregistered and
  the first is unregistered twice. No queue is closed a second time, and the queue of
  the eleventh is closed by its register request, the session holding 10 clients.
\<close>

theorem send_queue_closes_witness:
  "distinct (registered (map Register ten_clients @
       [Register late_client, Unregister late_client, Unregister (cap_client 0),
        Unregister (cap_client 0)])) \<and>
   run NewHub (map Register ten_clients @
       [Register late_client, Unregister late_client, Unregister (cap_client 0),
        Unregister (cap_client 0)]) \<noteq> Inl CloseOfClosedChannel \<and>
   run NewHub (map Register ten_clients) = Inr full_session \<and>
   step full_session (Register late_client) =
     Inr (full_session\<lparr>send := (send full_session)(late_client := \<lparr>buf = [], closed = True\<rparr>)\<rparr>) \<and>
   (\<exists>cs. clients full_session (sessionID late_client) = Some cs \<and> fcard cs = 10) \<and>
   step (full_session\<lparr>send := (send full_session)(late_client := \<lparr>buf = [], closed = True\<rparr>)\<rparr>)
        (Unregister late_client) =
     Inr (full_session\<lparr>send := (send full_session)(late_client := \<lparr>buf = [], closed = True\<rparr>)\<rparr>)"
proof -
  let ?evs = "map Register ten_clients @
       [Register late_client, Unregister late_client, Unregister (cap_client 0),
        Unregister (cap_client 0)]"
  let ?h' = "full_session\<lparr>send := (send full_session)(late_client := \<lparr>buf = [], closed = True\<rparr>)\<rparr>"
  have d: "distinct (registered ?evs)"
    by (simp add: ten_clients_def late_client_def)
  have a: "clients full_session (sessionID late_client) = Some (fset_of_list ten_clients)"
    and b: "\<not> closed (send full_session late_client)"
    and m: "maxClientsPerSession full_session \<le> fcard (fset_of_list ten_clients)"
    and s: "(send full_session late_client)\<lparr>closed := True\<rparr> = \<lparr>buf = [], closed = True\<rparr>"
    by (simp_all add: full_session_def late_client_def fcard_ten_clients)
  have st: "step full_session (Register late_client) = Inr ?h'"
    using registerClient_full [OF a m b] s by simp
  have c: "closed (send ?h' late_client)" by simp
  from send_queue_closes [of ?evs] d
  have 1: "run NewHub ?evs \<noteq> Inl CloseOfClosedChannel" by blast
  from send_queue_closes [of "map Register ten_clients" full_session "Register late_client" ?h'
                             late_client] run_ten_clients st b c
  have 2: "\<exists>cs. clients full_session (sessionID late_client) = Some cs \<and> fcard cs = 10"
    by blast
  have u: "step ?h' (Unregister late_client) = Inr ?h'"
    by (simp add: unregisterClient_def Let_def full_session_def late_client_def ten_clients_def)
  from send_queue_closes [of "[]" ?h' "Unregister late_client" ?h' late_client] u c
  have 3: "closed (send ?h' late_client)" by blast
  from d 1 run_ten_clients st 2 u 3 show ?thesis by blast
qed

text \<open>The loop of the broadcast leaves the excluded client alone, whatever the order.\<close>

lemma broadcastLoop_excluded:
  "bm_Exclude msg = Some c \<Longrightarrow> broadcastLoop msg visit chans unreg = Inr (chans', unreg')
     \<Longrightarrow> chans' c = chans c \<and> (c \<in> set unreg' \<longrightarrow> c \<in> set unreg)"
proof (induction visit arbitrary: chans unreg)
  case Nil
  then show ?case by simp
next
  case (Cons x visit)
  show ?case
  proof (cases "x = c")
    case True
    with Cons.prems have "broadcastLoop msg visit chans unreg = Inr (chans', unreg')"
      by simp
    from Cons.IH [OF Cons.prems(1) this] show ?thesis .
  next
    case False
    with Cons.prems(1) have ne: "Some x \<noteq> bm_Exclude msg" by simp
    show ?thesis
    proof (cases "length (buf (chans x)) < sendCapacity")
      case True
      with Cons.prems(2) ne have
        "broadcastLoop msg visit
           (chans(x := (chans x)\<lparr>buf := buf (chans x) @ [bm_Message msg]\<rparr>)) unreg
         = Inr (chans', unreg')"
        by (simp split: if_splits)
      from Cons.IH [OF Cons.prems(1) this] False show ?thesis by simp
    next
      case full: False
      with Cons.prems(2) ne have
        "broadcastLoop msg visit chans (unreg @ [x]) = Inr (chans', unreg')"
        by (simp split: if_splits)
      from Cons.IH [OF Cons.prems(1) this] False show ?thesis by auto
    qed
  qed
qed

text \<open>
  Claim C9. A broadcast whose \<^verbatim>\<open>Exclude\<close> is the client \<open>c\<close> leaves the queue of \<open>c\<close> as
  it was, in whatever order the clients are visited, and does not send \<open>c\<close> to the
  unregister channel. \<^verbatim>\<open>handleDataUpdate\<close> of \<open>c\<close>, when the repository accepts the
  message, broadcasts it with \<^verbatim>\<open>Exclude\<close> set to \<open>c\<close>, so the update does not come back
  to the client that sent it.
\<close>

theorem broadcast_excludes_sender:
  "(bm_Exclude msg = Some c \<and> broadcastMessage h msg visit = Inr (h', unreg)
      \<longrightarrow> send h' c = send h c \<and> c \<notin> set unreg) \<and>
   handleDataUpdate h c None data errFrame =
     Inr (h, Some \<lparr>bm_SessionID = sessionID c, bm_Message = data, bm_Exclude = Some c\<rparr>) \<and>
   (handleDataUpdate h c err data errFrame = Inr (h1, Some msg') \<and>
    broadcastMessage h1 msg' visit' = Inr (h2, unreg')
      \<longrightarrow> bm_Exclude msg' = Some c \<and> bm_Message msg' = data \<and> send h2 c = send h c \<and>
          c \<notin> set unreg')"
proof -
  have 1: "\<And>msg c h visit h' unreg.
      bm_Exclude msg = Some c \<Longrightarrow> broadcastMessage h msg visit = Inr (h', unreg)
      \<Longrightarrow> send h' c = send h c \<and> c \<notin> set unreg"
  proof -
    fix msg c h visit h' unreg
    assume e: "bm_Exclude msg = Some c" and b: "broadcastMessage h msg visit = Inr (h', unreg)"
    show "send h' c = send h c \<and> c \<notin> set unreg"
    proof (cases "clients h (bm_SessionID msg)")
      case None
      with b show ?thesis by (simp add: broadcastMessage_def)
    next
      case (Some cs)
      with b obtain chans' where
        l: "broadcastLoop msg (filter (\<lambda>c. c |\<in>| cs) visit) (send h) [] = Inr (chans', unreg)"
        and h': "h' = h\<lparr>send := chans'\<rparr>"
        by (auto simp: broadcastMessage_def split: sum.splits)
      from broadcastLoop_excluded [OF e l] h' show ?thesis by simp
    qed
  qed
  have 2: "handleDataUpdate h c None data errFrame =
     Inr (h, Some \<lparr>bm_SessionID = sessionID c, bm_Message = data, bm_Exclude = Some c\<rparr>)"
    by (simp add: handleDataUpdate_def)
  have 3: "handleDataUpdate h c err data errFrame = Inr (h1, Some msg') \<and>
    broadcastMessage h1 msg' visit' = Inr (h2, unreg')
      \<longrightarrow> bm_Exclude msg' = Some c \<and> bm_Message msg' = data \<and> send h2 c = send h c \<and>
          c \<notin> set unreg'"
  proof
    assume a: "handleDataUpdate h c err data errFrame = Inr (h1, Some msg') \<and>
      broadcastMessage h1 msg' visit' = Inr (h2, unreg')"
    then have m: "h1 = h" "bm_Exclude msg' = Some c" "bm_Message msg' = data"
      by (auto simp: handleDataUpdate_def split: option.splits sum.splits)
    from 1 [OF m(2), of h1 visit' h2 unreg'] a m
    show "bm_Exclude msg' = Some c \<and> bm_Message msg' = data \<and> send h2 c = send h c \<and>
          c \<notin> set unreg'"
      by simp
  qed
  from 1 [of msg c h visit h' unreg] 2 3 show ?thesis by blast
qed

text \<open>
  Two clients in the session \<open>s2\<close>: the update of the first reaches the queue of the
  second and not its own.
\<close>

theorem broadcast_excludes_sender_witness:
  "run NewHub [Register client_A, Register client_B] = Inr session_s2 \<and>
   handleDataUpdate session_s2 client_A None update_bytes [] =
     Inr (session_s2, Some \<lparr>bm_SessionID = ''s2'', bm_Message = update_bytes,
                              bm_Exclude = Some client_A\<rparr>) \<and>
   broadcastMessage session_s2
       \<lparr>bm_SessionID = ''s2'', bm_Message = update_bytes, bm_Exclude = Some client_A\<rparr>
       [client_A, client_B] =
     Inr (session_s2\<lparr>send := (send session_s2)(client_B := \<lparr>buf = [update_bytes], closed = False\<rparr>)\<rparr>,
          []) \<and>
   send (session_s2\<lparr>send := (send session_s2)(client_B := \<lparr>buf = [update_bytes], closed = False\<rparr>)\<rparr>)
       client_A = send session_s2 client_A \<and>
   buf (send session_s2 client_A) = []"
proof -
  let ?msg = "\<lparr>bm_SessionID = ''s2'', bm_Message = update_bytes, bm_Exclude = Some client_A\<rparr>"
  let ?h2 = "session_s2\<lparr>send := (send session_s2)(client_B := \<lparr>buf = [update_bytes], closed = False\<rparr>)\<rparr>"
  have r: "run NewHub [Register client_A, Register client_B] = Inr session_s2"
    by (simp add: NewHub_def session_s2_def client_A_def client_B_def registerClient_def Let_def
                  fcard_finsert_if fcard_fempty finsert_commute)
  have u: "handleDataUpdate session_s2 client_A None update_bytes [] = Inr (session_s2, Some ?msg)"
    by (simp add: handleDataUpdate_def client_A_def)
  have b: "broadcastMessage session_s2 ?msg [client_A, client_B] = Inr (?h2, [])"
    by (simp add: broadcastMessage_def session_s2_def client_A_def client_B_def sendCapacity_def)
  have e: "buf (send session_s2 client_A) = []"
    by (simp add: session_s2_def)
  from broadcast_excludes_sender [of ?msg client_A session_s2 "[client_A, client_B]" ?h2 "[]"
         update_bytes "[]" None session_s2 ?msg "[client_A, client_B]" ?h2 "[]"] r u b e
  show ?thesis by simp
qed

section \<open>Properties of the query planner and the single-anchor handler\<close>

text \<open>
  \<^verbatim>\<open>GetAnchor\<close> sets \<^verbatim>\<open>AnchorID\<close> and \<^verbatim>\<open>Limit\<close> and leaves \<^verbatim>\<open>Radius\<close> at 0, so the
  planner's spatial filter, the only place that reads \<^verbatim>\<open>AnchorID\<close>, is not added: the
  query and its bindings are the same for every id, and so is the answer.
\<close>

lemma decimal_digit: "n < 10 \<Longrightarrow> decimal n = [digitChar n]"
  by (simp add: decimal.simps)

lemma buildQuery_single_anchor:
  "buildQuery \<lparr>p_SessionID = [], p_AnchorID = anchorID, p_Radius = 0, p_Since = 0, p_Until = 0,
               p_Limit = 1, p_IncludeMeshes = False, p_IncludeDeleted = False\<rparr> =
     (newest_anchor_query, [''@collection'' \<mapsto> BString ''anchors'', ''limit'' \<mapsto> BInt 1])"
  by (simp add: buildQuery_def newest_anchor_query_def AnchorsCollection_def Sprintf_d_def
                decimal_digit digitChar_def)

lemma GetAnchor_ignores_id:
  "id1 \<noteq> [] \<Longrightarrow> id2 \<noteq> [] \<Longrightarrow> GetAnchor db id1 = GetAnchor db id2"
  by (simp add: GetAnchor_def Query_def Let_def buildQuery_single_anchor split: dbresult.splits)

text \<open>
  Claim C1 does not hold of the code. For the id \<open>zzz\<close> the planner's query has no
  filter and asks for the newest anchor of the collection; a store that holds only the
  anchor \<open>a1\<close> answers with it, and the handler responds 200 with \<open>a1\<close>, the same
  answer as for the id \<open>a1\<close>, where the claim asks for 404.
\<close>

theorem GetAnchor_returns_other_anchor:
  "buildQuery \<lparr>p_SessionID = [], p_AnchorID = ''zzz'', p_Radius = 0, p_Since = 0, p_Until = 0,
               p_Limit = 1, p_IncludeMeshes = False, p_IncludeDeleted = False\<rparr> =
     (''FOR doc IN @@collection\<newline>SORT doc.timestamp DESC\<newline>LIMIT 1\<newline>RETURN doc'',
      [''@collection'' \<mapsto> BString ''anchors'', ''limit'' \<mapsto> BInt 1]) \<and>
   GetAnchor store_with_a1 ''zzz'' = Response 200 (AnchorJSON anchor_a1) \<and>
   a_ID anchor_a1 \<noteq> ''zzz'' \<and>
   GetAnchor store_with_a1 ''a1'' = GetAnchor store_with_a1 ''zzz''"
proof -
  have q: "buildQuery \<lparr>p_SessionID = [], p_AnchorID = ''zzz'', p_Radius = 0, p_Since = 0, p_Until = 0,
               p_Limit = 1, p_IncludeMeshes = False, p_IncludeDeleted = False\<rparr> =
     (''FOR doc IN @@collection\<newline>SORT doc.timestamp DESC\<newline>LIMIT 1\<newline>RETURN doc'',
      [''@collection'' \<mapsto> BString ''anchors'', ''limit'' \<mapsto> BInt 1])"
    using buildQuery_single_anchor [of "''zzz''"] by (simp only: newest_anchor_query_def)
  have g: "GetAnchor store_with_a1 ''zzz'' = Response 200 (AnchorJSON anchor_a1)"
    by (simp add: GetAnchor_def Query_def Let_def buildQuery_single_anchor store_with_a1_def)
  have i: "a_ID anchor_a1 \<noteq> ''zzz''"
    by (simp add: anchor_a1_def)
  have e: "GetAnchor store_with_a1 ''a1'' = GetAnchor store_with_a1 ''zzz''"
    by (rule GetAnchor_ignores_id) simp_all
  from q g i e show ?thesis by blast
qed

text \<open>
  Claim C3 does not hold of the code for the limit. For \<open>session_id = s1\<close> and
  \<open>limit = 5\<close> the session id is bound as \<open>@session_id\<close>, but the limit is written
  into the query text by \<^verbatim>\<open>fmt.Sprintf("\nLIMIT %d", params.Limit)\<close>; the binding
  \<open>limit\<close> that is also stored is not referred to by the text.
\<close>

theorem buildQuery_interpolates_limit:
  "buildQuery params_s1_limit5 =
     (''FOR doc IN @@collection\<newline>FILTER doc.session_id == @session_id\<newline>SORT doc.timestamp DESC\<newline>LIMIT 5\<newline>RETURN doc'',
      [''@collection'' \<mapsto> BString ''anchors'', ''session_id'' \<mapsto> BString ''s1'',
       ''limit'' \<mapsto> BInt 5])"
  by (simp add: buildQuery_def params_s1_limit5_def AnchorsCollection_def Sprintf_d_def
                decimal_digit digitChar_def)


end
